theory Spec2Isabelle
  imports Main "HOL-Library.Word"
begin

section \<open>The tablet server entry point: \<^verbatim>\<open>src/tserver/tablet_server_main.cc\<close>\<close>

text \<open>
  The file holds the flag \<^verbatim>\<open>flush_threshold_mb\<close>, the class
  \<^verbatim>\<open>TemporaryTabletsForDemos\<close>, the two maintenance threads
  \<^verbatim>\<open>FlushThread\<close> and \<^verbatim>\<open>CompactThread\<close>, and \<^verbatim>\<open>TabletServerMain\<close>.
  Everything else (the tablet, its metadata, the peer, the server, gflags, glog) is a
  collaborator whose answers are inputs of the model. What a thread does is recorded as
  the list of events it produces, in program order, together with the way it ended.
\<close>

subsection \<open>Collaborators\<close>

text \<open>\<^verbatim>\<open>kudu::Status\<close>: either ok, or an error with its message.\<close>

datatype Status = OK | NotOK string

text \<open>
  Modelled from the spec: the enumeration behind \<^verbatim>\<open>Tablet::COMPACT_NO_FLAGS\<close> is declared
  in \<^verbatim>\<open>tablet/tablet.h\<close>, which is not among the sources. The spec has
  \<^verbatim>\<open>compact(flags)\<close> and one value meaning "no special flags (full, unrestricted
  compaction)"; the second constructor stands for any other flag value.
\<close>

datatype CompactFlags = COMPACT_NO_FLAGS | OTHER_COMPACT_FLAGS

text \<open>\<^verbatim>\<open>metadata::TabletMasterBlockPB\<close> with the three fields the constructor sets.\<close>

record TabletMasterBlockPB =
  tablet_id :: string
  block_a :: string
  block_b :: string

text \<open>The calls that return a \<^verbatim>\<open>Status\<close>.\<close>

datatype call =
    Server_Init
  | LoadOrCreate TabletMasterBlockPB
  | Tablet_Open
  | TabletPeer_Init
  | TabletPeer_Start
  | Server_Start
  | Tablet_Flush
  | Tablet_Compact CompactFlags

text \<open>
  The answers of the collaborators. \<open>status c k\<close> is the status that call \<open>c\<close> returns when
  it is made in round \<open>k\<close>: round \<open>0\<close> for the calls of the main thread, which are made once,
  and the iteration number for the calls of the two loops. \<open>MemRowSetSize k\<close> is what
  \<^verbatim>\<open>tablet->MemRowSetSize()\<close> returns in iteration \<open>k\<close> of the flush loop; the tablet is
  written to by other threads, so the readings are unrelated to each other.

  Modelled from the spec: the declaration of \<^verbatim>\<open>Tablet::MemRowSetSize\<close> is in
  \<^verbatim>\<open>tablet/tablet.h\<close>, which is not among the sources. The spec has
  \<^verbatim>\<open>currentMemoryUsage() -> bytes\<close>, a byte count; it is taken as a \<^verbatim>\<open>size_t\<close>, an
  unsigned 64-bit integer.
\<close>

record collaborators =
  status :: "call \<Rightarrow> nat \<Rightarrow> Status"
  MemRowSetSize :: "nat \<Rightarrow> 64 word"

text \<open>
  The command line as \<^verbatim>\<open>google::ParseCommandLineFlags(&argc, &argv, true)\<close> leaves it:
  \<^verbatim>\<open>argv[0]\<close>, the value given for \<^verbatim>\<open>--flush_threshold_mb\<close> if the flag was given, and
  the arguments that are not flags, which stay in \<^verbatim>\<open>argv[1..]\<close>. The program name is
  always there, so \<^verbatim>\<open>argc\<close> is one more than the number of arguments left.
\<close>

record cmdline =
  argv0 :: string
  flush_threshold_mb_arg :: "32 word option"
  positional :: "string list"

definition argc :: "cmdline \<Rightarrow> int" where
  "argc cl = 1 + int (length (positional cl))"

text \<open>\<^verbatim>\<open>DEFINE_int32(flush_threshold_mb, 64, "Minimum memrowset size to flush")\<close>\<close>

definition FLAGS_flush_threshold_mb :: "cmdline \<Rightarrow> 32 word" where
  "FLAGS_flush_threshold_mb cl =
     (case flush_threshold_mb_arg cl of None \<Rightarrow> 64 | Some v \<Rightarrow> v)"

subsection \<open>Events, outcomes and statements\<close>

datatype event =
    InitGoogleLoggingSafe string
  | ParseCommandLineFlags
  | Cerr string
  | LogInfo string
  | VLog nat string
  | Called call Status
  | LogFatal
  | NewTabletServer
  | CreateTwitterSchema
  | NewTablet
  | NewTabletPeer
  | RegisterTablet
  | StartThread string
  | ReadMemRowSetSize "64 word"
  | USleep nat
  | Sleep nat

text \<open>
  How a piece of code ends: it falls through to the next statement (\<open>Continue\<close>), the
  function returns a value, the process is aborted, or the observation stops while a
  \<^verbatim>\<open>while (true)\<close> loop is still going round (\<open>Running\<close>).
\<close>

datatype outcome = Continue | Returned int | Aborted | Running

type_synonym stmt = "event list \<times> outcome"

definition emit :: "event \<Rightarrow> stmt" where
  "emit e = ([e], Continue)"

definition skip :: stmt where
  "skip = ([], Continue)"

definition return_stmt :: "int \<Rightarrow> stmt" where
  "return_stmt v = ([], Returned v)"

text \<open>A call of a collaborator: the event, and the status handed back.\<close>

definition invoke :: "collaborators \<Rightarrow> call \<Rightarrow> nat \<Rightarrow> event list \<times> Status" where
  "invoke env c k = ([Called c (status env c k)], status env c k)"

text \<open>
  Modelled from the spec: the macro \<^verbatim>\<open>CHECK_OK\<close> is defined in \<^verbatim>\<open>util/status.h\<close>, which
  is not among the sources. The spec calls it a fatal-abort style check: on a status that
  is not ok "the process terminates immediately (abort semantics)" after "a diagnostic
  message"; on an ok status execution goes on.
\<close>

definition CHECK_OK :: "event list \<times> Status \<Rightarrow> stmt" where
  "CHECK_OK r = (if snd r = OK then (fst r, Continue) else (fst r @ [LogFatal], Aborted))"

text \<open>The events \<open>tr\<close>, and then what \<open>r\<close> does.\<close>

definition then_stmt :: "event list \<Rightarrow> stmt \<Rightarrow> stmt" where
  "then_stmt tr r = (tr @ fst r, snd r)"

text \<open>A sequence of statements: the first one that does not fall through ends it.\<close>

fun block :: "stmt list \<Rightarrow> stmt" where
  "block [] = ([], Continue)"
| "block (s # ss) =
     (case snd s of
        Continue \<Rightarrow> then_stmt (fst s) (block ss)
      | _ \<Rightarrow> s)"

text \<open>
  \<^verbatim>\<open>while (true) { body }\<close>, observed for at most \<open>n\<close> iterations, the first of them
  numbered \<open>k\<close>. The loop has no condition and no \<^verbatim>\<open>break\<close>: it goes on as long as the body
  falls through.
\<close>

fun while_true :: "nat \<Rightarrow> (nat \<Rightarrow> stmt) \<Rightarrow> nat \<Rightarrow> stmt" where
  "while_true 0 body k = ([], Running)"
| "while_true (Suc n) body k =
     (case snd (body k) of
        Continue \<Rightarrow> then_stmt (fst (body k)) (while_true n body (Suc k))
      | _ \<Rightarrow> body k)"

text \<open>
  The same loop run to its end: \<open>Some\<close> of the events and the outcome when an iteration
  does not fall through, \<open>None\<close> when the loop goes round for ever.
\<close>

partial_function (option) while_true_run ::
  "(nat \<Rightarrow> stmt) \<Rightarrow> nat \<Rightarrow> event list \<Rightarrow> stmt option" where
  "while_true_run body k tr =
     (case snd (body k) of
        Continue \<Rightarrow> while_true_run body (Suc k) (tr @ fst (body k))
      | out \<Rightarrow> Some (tr @ fst (body k), out))"

subsection \<open>The flush threshold\<close>

text \<open>
  \<^verbatim>\<open>FLAGS_flush_threshold_mb * 1024 * 1024\<close>: the flag is an \<^verbatim>\<open>int32\<close> and the literals
  are \<^verbatim>\<open>int\<close>, so the product is computed in 32 bits. C++ leaves the overflow of a signed
  product undefined; the model takes the two's complement result, which is what the
  multiplication instruction delivers.
\<close>

definition flush_threshold :: "32 word \<Rightarrow> 32 word" where
  "flush_threshold mb = mb * 1024 * 1024"

text \<open>
  In \<^verbatim>\<open>tablet->MemRowSetSize() > FLAGS_flush_threshold_mb * 1024 * 1024\<close> the left operand
  is a \<^verbatim>\<open>size_t\<close>, so the \<^verbatim>\<open>int\<close> on the right is converted to \<^verbatim>\<open>size_t\<close> (sign
  extension to 64 bits) and the comparison is unsigned. This is the threshold in bytes
  that the comparison uses.
\<close>

definition flush_threshold_bytes :: "32 word \<Rightarrow> 64 word" where
  "flush_threshold_bytes mb = scast (flush_threshold mb)"

subsection \<open>\<^verbatim>\<open>TemporaryTabletsForDemos\<close>\<close>

definition master_block :: TabletMasterBlockPB where
  "master_block =
     \<lparr> tablet_id = ''twitter'',
       block_a = ''00000000000000000000000000000000'',
       block_b = ''11111111111111111111111111111111'' \<rparr>"

definition TemporaryTabletsForDemos :: "collaborators \<Rightarrow> stmt" where
  "TemporaryTabletsForDemos env = block [
     emit CreateTwitterSchema,
     CHECK_OK (invoke env (LoadOrCreate master_block) 0),
     emit NewTablet,
     CHECK_OK (invoke env Tablet_Open 0)]"

subsection \<open>\<^verbatim>\<open>FlushThread\<close> and \<^verbatim>\<open>CompactThread\<close>\<close>

text \<open>One pass through the body of the loop of \<^verbatim>\<open>FlushThread\<close>, in iteration \<open>k\<close>.\<close>

definition FlushThread_body :: "collaborators \<Rightarrow> 32 word \<Rightarrow> nat \<Rightarrow> stmt" where
  "FlushThread_body env mb k = block [
     emit (ReadMemRowSetSize (MemRowSetSize env k)),
     (if MemRowSetSize env k > flush_threshold_bytes mb
      then CHECK_OK (invoke env Tablet_Flush k)
      else emit (VLog 1 ''Not flushing, memrowset not very full'')),
     emit (USleep (250 * 1000))]"

definition FlushThread :: "nat \<Rightarrow> collaborators \<Rightarrow> 32 word \<Rightarrow> stmt" where
  "FlushThread n env mb = while_true n (FlushThread_body env mb) 0"

definition FlushThread_run :: "collaborators \<Rightarrow> 32 word \<Rightarrow> stmt option" where
  "FlushThread_run env mb = while_true_run (FlushThread_body env mb) 0 []"

text \<open>One pass through the body of the loop of \<^verbatim>\<open>CompactThread\<close>, in iteration \<open>k\<close>.\<close>

definition CompactThread_body :: "collaborators \<Rightarrow> nat \<Rightarrow> stmt" where
  "CompactThread_body env k = block [
     CHECK_OK (invoke env (Tablet_Compact COMPACT_NO_FLAGS) k),
     emit (USleep (3000 * 1000))]"

definition CompactThread :: "nat \<Rightarrow> collaborators \<Rightarrow> stmt" where
  "CompactThread n env = while_true n (CompactThread_body env) 0"

definition CompactThread_run :: "collaborators \<Rightarrow> stmt option" where
  "CompactThread_run env = while_true_run (CompactThread_body env) 0 []"

subsection \<open>\<^verbatim>\<open>TabletServerMain\<close>\<close>

text \<open>
  The main thread; \<open>n\<close> bounds the observed iterations of its closing
  \<^verbatim>\<open>while (true) { sleep(60); }\<close>. The two \<^verbatim>\<open>boost::thread\<close> objects start
  \<^verbatim>\<open>CompactThread\<close> and \<^verbatim>\<open>FlushThread\<close>, which then run beside the main thread.
\<close>

definition TabletServerMain :: "nat \<Rightarrow> collaborators \<Rightarrow> cmdline \<Rightarrow> stmt" where
  "TabletServerMain n env cl = block [
     emit (InitGoogleLoggingSafe (argv0 cl)),
     emit ParseCommandLineFlags,
     (if argc cl \<noteq> 1
      then block [emit (Cerr (''usage: '' @ argv0 cl @ [CHR 0x0A])), return_stmt 1]
      else skip),
     emit NewTabletServer,
     emit (LogInfo ''Initializing tablet server...''),
     CHECK_OK (invoke env Server_Init 0),
     emit (LogInfo ''Setting up demo tablets...''),
     TemporaryTabletsForDemos env,
     emit NewTabletPeer,
     CHECK_OK (invoke env TabletPeer_Init 0),
     CHECK_OK (invoke env TabletPeer_Start 0),
     emit RegisterTablet,
     emit (LogInfo ''Starting flush/compact threads''),
     emit (StartThread ''CompactThread''),
     emit (StartThread ''FlushThread''),
     emit (LogInfo ''Starting tablet server...''),
     CHECK_OK (invoke env Server_Start 0),
     emit (LogInfo ''Tablet server successfully started.''),
     while_true n (\<lambda>k. emit (Sleep 60)) 0,
     return_stmt 0]"

subsection \<open>Reading a trace\<close>

text \<open>The predicates and measures on event lists in which the properties are stated.\<close>

fun is_called :: "call \<Rightarrow> event \<Rightarrow> bool" where
  "is_called c (Called c' s) = (c' = c)"
| "is_called c e = False"

fun is_compact :: "event \<Rightarrow> bool" where
  "is_compact (Called (Tablet_Compact f) s) = True"
| "is_compact e = False"

fun is_read :: "event \<Rightarrow> bool" where
  "is_read (ReadMemRowSetSize u) = True"
| "is_read e = False"

fun failed :: "event \<Rightarrow> bool" where
  "failed (Called c s) = (s \<noteq> OK)"
| "failed e = False"

fun is_sleep :: "event \<Rightarrow> bool" where
  "is_sleep (USleep d) = True"
| "is_sleep (Sleep d) = True"
| "is_sleep e = False"

text \<open>The time an event asks to sleep, in microseconds.\<close>

fun sleep_us :: "event \<Rightarrow> nat" where
  "sleep_us (USleep d) = d"
| "sleep_us (Sleep d) = d * 1000000"
| "sleep_us e = 0"

text \<open>\<open>precedes P Q tr\<close>: no \<open>Q\<close> event occurs in \<open>tr\<close> unless a \<open>P\<close> event came before it.\<close>

fun precedes :: "(event \<Rightarrow> bool) \<Rightarrow> (event \<Rightarrow> bool) \<Rightarrow> event list \<Rightarrow> bool" where
  "precedes P Q [] = True"
| "precedes P Q (e # es) =
     (if P e then True else if Q e then False else precedes P Q es)"

text \<open>
  \<open>fatal_on_error tr\<close>: a call that returns a status other than ok is followed by the
  fatal log entry and by nothing else.
\<close>

fun fatal_on_error :: "event list \<Rightarrow> bool" where
  "fatal_on_error [] = True"
| "fatal_on_error (Called c s # es) =
     (if s = OK then fatal_on_error es else es = [LogFatal])"
| "fatal_on_error (e # es) = fatal_on_error es"

text \<open>
  \<open>delays P acc tr\<close>: the time slept between each \<open>P\<close> event of \<open>tr\<close> and the next one, in
  microseconds; \<open>acc\<close> is the time slept since the last \<open>P\<close> event, if there was one.
\<close>

fun delays :: "(event \<Rightarrow> bool) \<Rightarrow> nat option \<Rightarrow> event list \<Rightarrow> nat list" where
  "delays P acc [] = []"
| "delays P acc (e # es) =
     (if P e then (case acc of None \<Rightarrow> [] | Some d \<Rightarrow> [d]) @ delays P (Some 0) es
      else delays P (map_option (\<lambda>d. d + sleep_us e) acc) es)"

text \<open>
  \<open>op_before_sleep P seen tr\<close>: every sleep of \<open>tr\<close> comes after a \<open>P\<close> event that no other
  sleep separates from it; \<open>seen\<close> tells whether such an event has already occurred.
\<close>

fun op_before_sleep :: "(event \<Rightarrow> bool) \<Rightarrow> bool \<Rightarrow> event list \<Rightarrow> bool" where
  "op_before_sleep P seen [] = True"
| "op_before_sleep P seen (e # es) =
     (if is_sleep e then seen \<and> op_before_sleep P False es
      else op_before_sleep P (seen \<or> P e) es)"

section \<open>Lemmas\<close>

subsection \<open>Statements and blocks\<close>

lemma then_stmt_pair [simp]: "then_stmt tr (a, b) = (tr @ a, b)"
  by (simp add: then_stmt_def)

lemma fst_then_stmt [simp]: "fst (then_stmt tr r) = tr @ fst r"
  by (simp add: then_stmt_def)

lemma snd_then_stmt [simp]: "snd (then_stmt tr r) = snd r"
  by (simp add: then_stmt_def)

lemma FlushThread_body_eq:
  "FlushThread_body env mb k =
     (if MemRowSetSize env k > flush_threshold_bytes mb
      then (if status env Tablet_Flush k = OK
            then ([ReadMemRowSetSize (MemRowSetSize env k), Called Tablet_Flush OK, USleep 250000], Continue)
            else ([ReadMemRowSetSize (MemRowSetSize env k), Called Tablet_Flush (status env Tablet_Flush k), LogFatal], Aborted))
      else ([ReadMemRowSetSize (MemRowSetSize env k), VLog 1 ''Not flushing, memrowset not very full'', USleep 250000], Continue))"
  by (simp add: FlushThread_body_def CHECK_OK_def invoke_def emit_def)

lemma CompactThread_body_eq:
  "CompactThread_body env k =
     (if status env (Tablet_Compact COMPACT_NO_FLAGS) k = OK
      then ([Called (Tablet_Compact COMPACT_NO_FLAGS) OK, USleep 3000000], Continue)
      else ([Called (Tablet_Compact COMPACT_NO_FLAGS) (status env (Tablet_Compact COMPACT_NO_FLAGS) k), LogFatal], Aborted))"
  by (simp add: CompactThread_body_def CHECK_OK_def invoke_def emit_def)

subsection \<open>The loop\<close>

lemma while_true_continue:
  "\<forall>i<n. snd (body (k + i)) = Continue \<Longrightarrow>
   while_true n body k = (concat (map (\<lambda>i. fst (body i)) [k..<k + n]), Running)"
proof (induction n arbitrary: k)
  case 0
  then show ?case by simp
next
  case (Suc n)
  from Suc.prems have here: "snd (body k) = Continue"
    by (metis add.right_neutral zero_less_Suc)
  from Suc.prems have "\<forall>i<n. snd (body (Suc k + i)) = Continue"
    by (metis add_Suc_shift Suc_less_eq)
  then have rest: "while_true n body (Suc k) =
      (concat (map (\<lambda>i. fst (body i)) [Suc k..<Suc k + n]), Running)"
    by (rule Suc.IH)
  have "[k..<k + Suc n] = k # [Suc k..<Suc k + n]"
    by (simp add: upt_conv_Cons)
  with here rest show ?case by simp
qed

lemma while_true_stop:
  "snd (body (k + j)) \<noteq> Continue \<Longrightarrow> \<forall>i<j. snd (body (k + i)) = Continue \<Longrightarrow> j < n \<Longrightarrow>
   while_true n body k =
     (concat (map (\<lambda>i. fst (body i)) [k..<k + j]) @ fst (body (k + j)), snd (body (k + j)))"
proof (induction j arbitrary: k n)
  case 0
  then obtain m where n: "n = Suc m" by (cases n) auto
  from 0 show ?case by (simp add: n split: outcome.splits)
next
  case (Suc j)
  then obtain m where n: "n = Suc m" and jm: "j < m" by (cases n) auto
  from Suc.prems have here: "snd (body k) = Continue"
    by (metis add.right_neutral zero_less_Suc)
  from Suc.prems have stop: "snd (body (Suc k + j)) \<noteq> Continue" by simp
  from Suc.prems have "\<forall>i<j. snd (body (Suc k + i)) = Continue"
    by (metis add_Suc_shift Suc_less_eq)
  with stop jm have rest: "while_true m body (Suc k) =
      (concat (map (\<lambda>i. fst (body i)) [Suc k..<Suc k + j]) @ fst (body (Suc k + j)),
       snd (body (Suc k + j)))"
    by (intro Suc.IH)
  have "[k..<k + Suc j] = k # [Suc k..<Suc k + j]"
    by (simp add: upt_conv_Cons)
  with here rest show ?case by (simp add: n)
qed

lemma while_true_run_Some_stops:
  assumes "while_true_run body k tr = Some y"
  shows "\<exists>i. snd (body (k + i)) \<noteq> Continue"
proof (rule while_true_run.raw_induct
    [where P = "\<lambda>body k tr y. \<exists>i. snd (body (k + i)) \<noteq> Continue", OF _ assms])
  fix run :: "(nat \<Rightarrow> stmt) \<Rightarrow> nat \<Rightarrow> event list \<Rightarrow> stmt option"
    and body k tr y
  assume IH: "\<And>body k tr y. run body k tr = Some y \<Longrightarrow> \<exists>i. snd (body (k + i)) \<noteq> Continue"
    and step: "(case snd (body k) of
        Continue \<Rightarrow> run body (Suc k) (tr @ fst (body k))
      | Returned v \<Rightarrow> Some (tr @ fst (body k), Returned v)
      | Aborted \<Rightarrow> Some (tr @ fst (body k), Aborted)
      | Running \<Rightarrow> Some (tr @ fst (body k), Running)) = Some y"
  show "\<exists>i. snd (body (k + i)) \<noteq> Continue"
  proof (cases "snd (body k) = Continue")
    case True
    with step have "run body (Suc k) (tr @ fst (body k)) = Some y" by simp
    then obtain i where "snd (body (Suc k + i)) \<noteq> Continue" using IH by blast
    then have "snd (body (k + Suc i)) \<noteq> Continue" by simp
    then show ?thesis by blast
  next
    case False
    then have "snd (body (k + 0)) \<noteq> Continue" by simp
    then show ?thesis by blast
  qed
qed

lemma while_true_run_None:
  "\<forall>i. snd (body (k + i)) = Continue \<Longrightarrow> while_true_run body k tr = None"
  using while_true_run_Some_stops [of body k tr] by (cases "while_true_run body k tr") auto

lemma while_true_run_Some:
  "snd (body (k + j)) \<noteq> Continue \<Longrightarrow> \<forall>i<j. snd (body (k + i)) = Continue \<Longrightarrow>
   while_true_run body k tr =
     Some (tr @ concat (map (\<lambda>i. fst (body i)) [k..<k + j]) @ fst (body (k + j)),
           snd (body (k + j)))"
proof (induction j arbitrary: k tr)
  case 0
  then show ?case
    by (subst while_true_run.simps) (simp split: outcome.splits)
next
  case (Suc j)
  from Suc.prems have here: "snd (body k) = Continue"
    by (metis add.right_neutral zero_less_Suc)
  from Suc.prems have stop: "snd (body (Suc k + j)) \<noteq> Continue" by simp
  from Suc.prems have "\<forall>i<j. snd (body (Suc k + i)) = Continue"
    by (metis add_Suc_shift Suc_less_eq)
  with stop have rest: "while_true_run body (Suc k) (tr @ fst (body k)) =
      Some ((tr @ fst (body k)) @ concat (map (\<lambda>i. fst (body i)) [Suc k..<Suc k + j])
              @ fst (body (Suc k + j)),
            snd (body (Suc k + j)))"
    by (intro Suc.IH)
  have "[k..<k + Suc j] = k # [Suc k..<Suc k + j]"
    by (simp add: upt_conv_Cons)
  with here rest show ?case
    by (subst while_true_run.simps) simp
qed

lemma while_true_run_None_iff:
  "(while_true_run body k tr = None) = (\<forall>i. snd (body (k + i)) = Continue)"
proof
  assume none: "while_true_run body k tr = None"
  show "\<forall>i. snd (body (k + i)) = Continue"
  proof (rule ccontr)
    assume "\<not> (\<forall>i. snd (body (k + i)) = Continue)"
    then have ex: "\<exists>i. snd (body (k + i)) \<noteq> Continue" by blast
    define j where "j = (LEAST i. snd (body (k + i)) \<noteq> Continue)"
    have stop: "snd (body (k + j)) \<noteq> Continue"
      unfolding j_def using ex by (rule LeastI_ex)
    have "\<forall>i<j. snd (body (k + i)) = Continue"
      unfolding j_def using not_less_Least by blast
    with stop none show False
      by (simp add: while_true_run_Some)
  qed
next
  assume "\<forall>i. snd (body (k + i)) = Continue"
  then show "while_true_run body k tr = None" by (rule while_true_run_None)
qed

lemma while_true_Running:
  "\<forall>i. snd (body i) \<noteq> Running \<Longrightarrow>
   (snd (while_true n body k) = Running) = (\<forall>i<n. snd (body (k + i)) = Continue)"
proof (induction n arbitrary: k)
  case 0
  then show ?case by simp
next
  case (Suc n)
  have shift: "(\<forall>i<Suc n. snd (body (k + i)) = Continue) =
      (snd (body k) = Continue \<and> (\<forall>i<n. snd (body (Suc k + i)) = Continue))"
  proof
    assume a: "\<forall>i<Suc n. snd (body (k + i)) = Continue"
    then have "snd (body (k + 0)) = Continue" by blast
    moreover have "\<forall>i<n. snd (body (Suc k + i)) = Continue"
      using a by (metis add_Suc_shift Suc_less_eq)
    ultimately show "snd (body k) = Continue \<and> (\<forall>i<n. snd (body (Suc k + i)) = Continue)"
      by simp
  next
    assume a: "snd (body k) = Continue \<and> (\<forall>i<n. snd (body (Suc k + i)) = Continue)"
    show "\<forall>i<Suc n. snd (body (k + i)) = Continue"
    proof (intro allI impI)
      fix i assume "i < Suc n"
      then show "snd (body (k + i)) = Continue"
        using a by (cases i) simp_all
    qed
  qed
  from Suc.prems have nr: "snd (body k) \<noteq> Running" by blast
  show ?case
  proof (cases "snd (body k) = Continue")
    case True
    then show ?thesis
      using Suc.IH [OF Suc.prems, of "Suc k"] by (simp add: shift)
  next
    case False
    with nr show ?thesis
      by (simp add: shift split: outcome.splits)
  qed
qed

lemma while_true_snoc:
  assumes "\<forall>i<n. snd (body (k + i)) = Continue"
  shows "fst (while_true (Suc n) body k) = fst (while_true n body k) @ fst (body (k + n))"
proof (cases "snd (body (k + n)) = Continue")
  case True
  with assms have "\<forall>i<Suc n. snd (body (k + i)) = Continue"
    using less_Suc_eq by auto
  then have "while_true (Suc n) body k =
      (concat (map (\<lambda>i. fst (body i)) [k..<k + Suc n]), Running)"
    by (rule while_true_continue)
  then show ?thesis
    by (simp add: while_true_continue [OF assms])
next
  case False
  then have "while_true (Suc n) body k =
     (concat (map (\<lambda>i. fst (body i)) [k..<k + n]) @ fst (body (k + n)), snd (body (k + n)))"
    using assms by (intro while_true_stop) simp_all
  then show ?thesis
    by (simp add: while_true_continue [OF assms])
qed

lemma while_true_outcome:
  "snd (while_true n body k) = Running \<or>
   (\<exists>i. snd (while_true n body k) = snd (body i) \<and> snd (body i) \<noteq> Continue)"
proof (induction n arbitrary: k)
  case 0
  then show ?case by simp
next
  case (Suc n)
  show ?case
  proof (cases "snd (body k) = Continue")
    case True
    then show ?thesis using Suc.IH [of "Suc k"] by simp
  next
    case False
    then have "snd (while_true (Suc n) body k) = snd (body k)"
      by (simp split: outcome.splits)
    with False show ?thesis by blast
  qed
qed

lemma while_true_run_outcome:
  assumes "while_true_run body k tr = Some r"
  shows "\<exists>i. snd r = snd (body i) \<and> snd (body i) \<noteq> Continue"
proof -
  from assms have ex: "\<exists>i. snd (body (k + i)) \<noteq> Continue"
    by (rule while_true_run_Some_stops)
  define j where "j = (LEAST i. snd (body (k + i)) \<noteq> Continue)"
  have stop: "snd (body (k + j)) \<noteq> Continue"
    unfolding j_def using ex by (rule LeastI_ex)
  have "\<forall>i<j. snd (body (k + i)) = Continue"
    unfolding j_def using not_less_Least by blast
  with stop assms have "snd r = snd (body (k + j))"
    by (auto simp add: while_true_run_Some)
  with stop show ?thesis by blast
qed

lemma while_true_run_eq_while_true:
  assumes "snd (body (k + j)) \<noteq> Continue" and "\<forall>i<j. snd (body (k + i)) = Continue"
    and "j < n"
  shows "while_true_run body k [] = Some (while_true n body k)"
  by (simp only: while_true_run_Some [OF assms(1,2)] while_true_stop [OF assms] append_Nil)

lemma length_concat_indicator:
  "\<forall>i\<in>set xs. length (f i) = (if P i then 1 else 0) \<Longrightarrow>
   length (concat (map f xs)) = length (filter P xs)"
  by (induction xs) simp_all

lemma while_true_Aborted:
  assumes "\<forall>i. snd (body i) = Continue \<or> snd (body i) = Aborted"
  shows "(snd (while_true n body k) = Aborted) = (\<exists>i<n. snd (body (k + i)) \<noteq> Continue)"
proof -
  from assms have nr: "\<forall>i. snd (body i) \<noteq> Running"
    by (metis outcome.distinct(5,11))
  have "snd (while_true n body k) = Running \<or> snd (while_true n body k) = Aborted"
    using while_true_outcome [of n body k] assms by metis
  then have "(snd (while_true n body k) = Aborted) = (snd (while_true n body k) \<noteq> Running)"
    by auto
  also have "\<dots> = (\<exists>i<n. snd (body (k + i)) \<noteq> Continue)"
    by (simp add: while_true_Running [OF nr])
  finally show ?thesis .
qed

lemma sleep_loop:
  "while_true n (\<lambda>k. emit (Sleep d)) k = (replicate n (Sleep d), Running)"
  by (induction n arbitrary: k) (simp_all add: emit_def)

lemma sleep_loop_events:
  "while_true n (\<lambda>k. ([Sleep d], Continue)) k = (replicate n (Sleep d), Running)"
  using sleep_loop [of n d k] by (simp add: emit_def)

lemma concat_map_const:
  "\<forall>i\<in>set xs. f i = c \<Longrightarrow> concat (map f xs) = concat (replicate (length xs) c)"
  by (induction xs) simp_all

subsection \<open>The bodies of the two loops\<close>

lemma FlushThread_body_Continue:
  "(snd (FlushThread_body env mb k) = Continue) =
     (flush_threshold_bytes mb < MemRowSetSize env k \<longrightarrow> status env Tablet_Flush k = OK)"
  by (simp add: FlushThread_body_eq)

lemma FlushThread_body_outcome:
  "snd (FlushThread_body env mb k) = Continue \<or> snd (FlushThread_body env mb k) = Aborted"
  by (simp add: FlushThread_body_eq)

lemma CompactThread_body_Continue:
  "(snd (CompactThread_body env k) = Continue) =
     (status env (Tablet_Compact COMPACT_NO_FLAGS) k = OK)"
  by (simp add: CompactThread_body_eq)

lemma CompactThread_body_outcome:
  "snd (CompactThread_body env k) = Continue \<or> snd (CompactThread_body env k) = Aborted"
  by (simp add: CompactThread_body_eq)

subsection \<open>Traces of the two loops\<close>

lemma op_before_sleep_FlushThread:
  "op_before_sleep is_read False (fst (while_true n (FlushThread_body env mb) k))"
proof (induction n arbitrary: k)
  case 0
  then show ?case by simp
next
  case (Suc n)
  from Suc.IH [of "Suc k"] show ?case
    by (simp add: FlushThread_body_eq [of env mb k])
qed

lemma op_before_sleep_CompactThread:
  "op_before_sleep is_compact False (fst (while_true n (CompactThread_body env) k))"
proof (induction n arbitrary: k)
  case 0
  then show ?case by simp
next
  case (Suc n)
  from Suc.IH [of "Suc k"] show ?case
    by (simp add: CompactThread_body_eq [of env k])
qed

lemma FlushThread_first:
  "\<exists>rest. fst (while_true (Suc n) (FlushThread_body env mb) k) =
     ReadMemRowSetSize (MemRowSetSize env k) # rest"
  by (simp add: FlushThread_body_eq [of env mb k])

lemma CompactThread_first:
  "\<exists>rest. fst (while_true (Suc n) (CompactThread_body env) k) =
     Called (Tablet_Compact COMPACT_NO_FLAGS) (status env (Tablet_Compact COMPACT_NO_FLAGS) k) # rest"
  by (simp add: CompactThread_body_eq [of env k])

lemma delays_FlushThread:
  "acc = None \<or> acc = Some 250000 \<Longrightarrow>
   set (delays is_read acc (fst (while_true n (FlushThread_body env mb) k))) \<subseteq> {250000}"
proof (induction n arbitrary: k acc)
  case 0
  then show ?case by simp
next
  case (Suc n)
  have rest: "set (delays is_read (Some 250000)
      (fst (while_true n (FlushThread_body env mb) (Suc k)))) \<subseteq> {250000}"
    by (rule Suc.IH) simp
  from Suc.prems rest show ?case
    by (auto simp add: FlushThread_body_eq [of env mb k])
qed

lemma delays_CompactThread:
  "acc = None \<or> acc = Some 3000000 \<Longrightarrow>
   set (delays is_compact acc (fst (while_true n (CompactThread_body env) k))) \<subseteq> {3000000}"
proof (induction n arbitrary: k acc)
  case 0
  then show ?case by simp
next
  case (Suc n)
  have rest: "set (delays is_compact (Some 3000000)
      (fst (while_true n (CompactThread_body env) (Suc k)))) \<subseteq> {3000000}"
    by (rule Suc.IH) simp
  from Suc.prems rest show ?case
    by (auto simp add: CompactThread_body_eq [of env k])
qed

lemma delays_FlushThread_exact:
  "\<forall>i<n. snd (FlushThread_body env mb (k + i)) = Continue \<Longrightarrow>
   delays is_read (Some 250000) (fst (while_true n (FlushThread_body env mb) k)) =
     replicate n 250000"
proof (induction n arbitrary: k)
  case 0
  then show ?case by simp
next
  case (Suc n)
  from Suc.prems have here: "snd (FlushThread_body env mb k) = Continue"
    by (metis add.right_neutral zero_less_Suc)
  from Suc.prems have "\<forall>i<n. snd (FlushThread_body env mb (Suc k + i)) = Continue"
    by (metis add_Suc_shift Suc_less_eq)
  then have rest: "delays is_read (Some 250000)
      (fst (while_true n (FlushThread_body env mb) (Suc k))) = replicate n 250000"
    by (rule Suc.IH)
  from here rest show ?case
    by (simp add: FlushThread_body_eq [of env mb k] split: if_splits)
qed

lemma delays_CompactThread_exact:
  "\<forall>i<n. snd (CompactThread_body env (k + i)) = Continue \<Longrightarrow>
   delays is_compact (Some 3000000) (fst (while_true n (CompactThread_body env) k)) =
     replicate n 3000000"
proof (induction n arbitrary: k)
  case 0
  then show ?case by simp
next
  case (Suc n)
  from Suc.prems have here: "snd (CompactThread_body env k) = Continue"
    by (metis add.right_neutral zero_less_Suc)
  from Suc.prems have "\<forall>i<n. snd (CompactThread_body env (Suc k + i)) = Continue"
    by (metis add_Suc_shift Suc_less_eq)
  then have rest: "delays is_compact (Some 3000000)
      (fst (while_true n (CompactThread_body env) (Suc k))) = replicate n 3000000"
    by (rule Suc.IH)
  from here rest show ?case
    by (simp add: CompactThread_body_eq [of env k] split: if_splits)
qed

lemma delays_FlushThread_start:
  assumes "\<forall>i<n. snd (FlushThread_body env mb i) = Continue"
  shows "delays is_read None (fst (while_true n (FlushThread_body env mb) 0)) =
     replicate (n - 1) 250000"
proof (cases n)
  case 0
  then show ?thesis by simp
next
  case (Suc m)
  from assms Suc have here: "snd (FlushThread_body env mb 0) = Continue" by simp
  from assms Suc have "\<forall>i<m. snd (FlushThread_body env mb (Suc 0 + i)) = Continue" by simp
  then have rest: "delays is_read (Some 250000)
      (fst (while_true m (FlushThread_body env mb) (Suc 0))) = replicate m 250000"
    by (rule delays_FlushThread_exact)
  from here rest show ?thesis
    by (simp add: Suc FlushThread_body_eq [of env mb 0] split: if_splits)
qed

lemma delays_CompactThread_start:
  assumes "\<forall>i<n. snd (CompactThread_body env i) = Continue"
  shows "delays is_compact None (fst (while_true n (CompactThread_body env) 0)) =
     replicate (n - 1) 3000000"
proof (cases n)
  case 0
  then show ?thesis by simp
next
  case (Suc m)
  from assms Suc have here: "snd (CompactThread_body env 0) = Continue" by simp
  from assms Suc have "\<forall>i<m. snd (CompactThread_body env (Suc 0 + i)) = Continue" by simp
  then have rest: "delays is_compact (Some 3000000)
      (fst (while_true m (CompactThread_body env) (Suc 0))) = replicate m 3000000"
    by (rule delays_CompactThread_exact)
  from here rest show ?thesis
    by (simp add: Suc CompactThread_body_eq [of env 0] split: if_splits)
qed

lemma fatal_on_error_replicate_Sleep: "fatal_on_error (replicate n (Sleep d))"
  by (induction n) simp_all

lemma fatal_on_error_FlushThread:
  "fatal_on_error (fst (while_true n (FlushThread_body env mb) k))"
proof (induction n arbitrary: k)
  case 0
  then show ?case by simp
next
  case (Suc n)
  from Suc.IH [of "Suc k"] show ?case
    by (simp add: FlushThread_body_eq [of env mb k])
qed

lemma fatal_on_error_CompactThread:
  "fatal_on_error (fst (while_true n (CompactThread_body env) k))"
proof (induction n arbitrary: k)
  case 0
  then show ?case by simp
next
  case (Suc n)
  from Suc.IH [of "Suc k"] show ?case
    by (simp add: CompactThread_body_eq [of env k])
qed

lemma CompactThread_fails_at:
  assumes bad: "status env (Tablet_Compact COMPACT_NO_FLAGS) j \<noteq> OK"
    and good: "\<forall>i<j. status env (Tablet_Compact COMPACT_NO_FLAGS) i = OK"
  shows "CompactThread_run env =
      Some (concat (replicate j [Called (Tablet_Compact COMPACT_NO_FLAGS) OK, USleep 3000000]) @
            [Called (Tablet_Compact COMPACT_NO_FLAGS)
               (status env (Tablet_Compact COMPACT_NO_FLAGS) j), LogFatal], Aborted)"
    and "j < m \<Longrightarrow> CompactThread m env =
      (concat (replicate j [Called (Tablet_Compact COMPACT_NO_FLAGS) OK, USleep 3000000]) @
       [Called (Tablet_Compact COMPACT_NO_FLAGS)
          (status env (Tablet_Compact COMPACT_NO_FLAGS) j), LogFatal], Aborted)"
proof -
  have stop: "snd (CompactThread_body env (0 + j)) \<noteq> Continue"
    using bad by (simp add: CompactThread_body_Continue)
  have cont: "\<forall>i<j. snd (CompactThread_body env (0 + i)) = Continue"
    using good by (simp add: CompactThread_body_Continue)
  have "\<forall>i\<in>set [0..<0 + j]. fst (CompactThread_body env i) =
      [Called (Tablet_Compact COMPACT_NO_FLAGS) OK, USleep 3000000]"
    using good by (simp add: CompactThread_body_eq)
  then have pre: "concat (map (\<lambda>i. fst (CompactThread_body env i)) [0..<0 + j]) =
      concat (replicate j [Called (Tablet_Compact COMPACT_NO_FLAGS) OK, USleep 3000000])"
    using concat_map_const
      [of "[0..<0 + j]" "\<lambda>i. fst (CompactThread_body env i)"
          "[Called (Tablet_Compact COMPACT_NO_FLAGS) OK, USleep 3000000]"]
    by simp
  have last: "CompactThread_body env (0 + j) =
      ([Called (Tablet_Compact COMPACT_NO_FLAGS)
          (status env (Tablet_Compact COMPACT_NO_FLAGS) j), LogFatal], Aborted)"
    using bad by (simp add: CompactThread_body_eq)
  show "CompactThread_run env =
      Some (concat (replicate j [Called (Tablet_Compact COMPACT_NO_FLAGS) OK, USleep 3000000]) @
            [Called (Tablet_Compact COMPACT_NO_FLAGS)
               (status env (Tablet_Compact COMPACT_NO_FLAGS) j), LogFatal], Aborted)"
    unfolding CompactThread_run_def
    by (simp only: while_true_run_Some [OF stop cont] pre last) simp
  show "CompactThread m env =
      (concat (replicate j [Called (Tablet_Compact COMPACT_NO_FLAGS) OK, USleep 3000000]) @
       [Called (Tablet_Compact COMPACT_NO_FLAGS)
          (status env (Tablet_Compact COMPACT_NO_FLAGS) j), LogFatal], Aborted)"
    if "j < m"
    unfolding CompactThread_def
    by (simp only: while_true_stop [OF stop cont that] pre last) simp
qed

subsection \<open>The main thread\<close>

lemma TabletServerMain_fatal_on_error:
  "fatal_on_error (fst (TabletServerMain n env cl))"
  by (simp add: TabletServerMain_def TemporaryTabletsForDemos_def emit_def skip_def
      return_stmt_def CHECK_OK_def invoke_def sleep_loop_events fatal_on_error_replicate_Sleep)

lemma TabletServerMain_Aborted:
  "argc cl = 1 \<Longrightarrow>
   (snd (TabletServerMain n env cl) = Aborted) =
     (status env Server_Init 0 \<noteq> OK
      \<or> status env (LoadOrCreate master_block) 0 \<noteq> OK
      \<or> status env Tablet_Open 0 \<noteq> OK
      \<or> status env TabletPeer_Init 0 \<noteq> OK
      \<or> status env TabletPeer_Start 0 \<noteq> OK
      \<or> status env Server_Start 0 \<noteq> OK)"
  by (simp add: TabletServerMain_def TemporaryTabletsForDemos_def emit_def skip_def
      return_stmt_def CHECK_OK_def invoke_def sleep_loop_events)

subsection \<open>The threshold, in 32 and 64 bits\<close>

lemma flush_threshold_of_int:
  "flush_threshold mb = word_of_int (sint mb * 1048576)"
proof -
  have "flush_threshold mb = mb * 1048576"
    by (simp add: flush_threshold_def mult.assoc)
  also have "\<dots> = word_of_int (sint mb) * word_of_int 1048576"
    by simp
  also have "\<dots> = word_of_int (sint mb * 1048576)"
    by (simp only: wi_hom_mult)
  finally show ?thesis .
qed

lemma sint_flush_threshold:
  "sint (flush_threshold mb) = signed_take_bit 31 (sint mb * 1048576)"
  by (simp only: flush_threshold_of_int signed_of_int) simp

lemma int32_product_fits:
  "- 2048 \<le> (k::int) \<Longrightarrow> k \<le> 2047 \<Longrightarrow>
     - 2147483648 \<le> k * 1048576 \<and> k * 1048576 < 2147483648"
  by linarith

lemma signed_take_bit_31_fits:
  assumes lo: "- 2147483648 \<le> (k::int)" and hi: "k < 2147483648"
  shows "signed_take_bit 31 k = k"
proof -
  have p: "(2::int) ^ 31 = 2147483648" by simp
  show ?thesis
    by (rule signed_take_bit_int_eq_self) (simp_all only: p lo hi)
qed

lemma sint_flush_threshold_fits: 
  assumes "- 2048 \<le> sint mb" "sint mb \<le> 2047"
  shows "sint (flush_threshold mb) = sint mb * 1048576"
  using int32_product_fits [OF assms]
  by (simp only: sint_flush_threshold signed_take_bit_31_fits)

lemma uint_flush_threshold_bytes:
  "uint (flush_threshold_bytes mb) = sint (flush_threshold mb) mod 18446744073709551616"
proof -
  have p: "(2::int) ^ LENGTH(64) = 18446744073709551616" by simp
  have "uint (scast (flush_threshold mb) :: 64 word) = sint (flush_threshold mb) mod 2 ^ LENGTH(64)"
    by (simp only: scast_eq uint_word_of_int)
  then show ?thesis by (simp only: p flush_threshold_bytes_def)
qed

lemma uint_flush_threshold_bytes_fits:
  assumes "0 \<le> sint mb" "sint mb \<le> 2047"
  shows "uint (flush_threshold_bytes mb) = sint mb * 1048576"
proof -
  have "sint (flush_threshold mb) = sint mb * 1048576"
    using assms by (intro sint_flush_threshold_fits) linarith+
  moreover have "0 \<le> sint mb * 1048576" "sint mb * 1048576 < 18446744073709551616"
    using assms by linarith+
  ultimately show ?thesis
    by (simp only: uint_flush_threshold_bytes mod_pos_pos_trivial)
qed

lemma mod_2_64_zero:
  assumes lo: "- 2147483648 \<le> (k::int)" and hi: "k < 2147483648"
    and m: "k mod 18446744073709551616 = 0"
  shows "k = 0"
proof (rule ccontr)
  assume nz: "k \<noteq> 0"
  from m have dv: "18446744073709551616 dvd k" by (simp only: dvd_eq_mod_eq_0)
  show False
  proof (cases "0 < k")
    case True
    from zdvd_imp_le [OF dv True] hi show False by linarith
  next
    case False
    with nz have neg: "0 < - k" by linarith
    from dv have "18446744073709551616 dvd - k" by (simp only: dvd_minus_iff)
    from zdvd_imp_le [OF this neg] lo show False by linarith
  qed
qed

lemma flush_threshold_bytes_eq_0:
  "(flush_threshold_bytes mb = 0) = (flush_threshold mb = 0)"
proof
  assume z: "flush_threshold_bytes mb = 0"
  have "uint (flush_threshold_bytes mb) = 0" by (simp add: z)
  then have m: "sint (flush_threshold mb) mod 18446744073709551616 = 0"
    by (simp only: uint_flush_threshold_bytes)
  have "- 2147483648 \<le> sint (flush_threshold mb)" "sint (flush_threshold mb) < 2147483648"
    using sint_ge [of "flush_threshold mb"] sint_lt [of "flush_threshold mb"] by simp_all
  then have "sint (flush_threshold mb) = 0" using m by (rule mod_2_64_zero)
  then show "flush_threshold mb = 0" by (simp only: signed_eq_0_iff)
next
  assume "flush_threshold mb = 0"
  then show "flush_threshold_bytes mb = 0" by (simp add: flush_threshold_bytes_def)
qed

lemma dvd_2_32: "((4294967296::int) dvd k * 1048576) = (4096 dvd k)"
proof -
  have "(4294967296::int) = 4096 * 1048576" by simp
  then have "((4294967296::int) dvd k * 1048576) = (4096 * 1048576 dvd k * 1048576)"
    by (simp only:)
  also have "\<dots> = (4096 dvd k)"
    by (simp only: dvd_mult_cancel_right) simp
  finally show ?thesis .
qed

lemma flush_threshold_bytes_eq_0_iff: "(flush_threshold_bytes mb = 0) = (4096 dvd sint mb)"
proof -
  have p: "(2::int) ^ 32 = 4294967296" by simp
  have "(flush_threshold_bytes mb = 0) = (flush_threshold mb = 0)"
    by (rule flush_threshold_bytes_eq_0)
  also have "\<dots> = ((2::int) ^ 32 dvd sint mb * 1048576)"
    by (simp only: flush_threshold_of_int word_of_int_eq_0_iff) simp
  also have "\<dots> = (4096 dvd sint mb)"
    by (simp only: p dvd_2_32)
  finally show ?thesis .
qed

lemma default_flush_threshold:
  "FLAGS_flush_threshold_mb \<lparr>argv0 = a, flush_threshold_mb_arg = None, positional = p\<rparr> = 64
   \<and> flush_threshold_bytes 64 = 67108864"
  by (simp add: FLAGS_flush_threshold_mb_def flush_threshold_bytes_def flush_threshold_def)

lemma argc_positional: "(argc cl \<noteq> 1) = (positional cl \<noteq> [])"
  by (simp add: argc_def)

section \<open>The claims\<close>

subsection \<open>The flush decision\<close>

text \<open>
  Claim C1. In every iteration of the loop of \<^verbatim>\<open>FlushThread\<close>, \<^verbatim>\<open>Flush\<close> is called if and
  only if the size read in that iteration is strictly greater than the threshold in bytes
  that the comparison uses, and then it is called once. A size equal to the threshold
  gives no flush: the iteration logs, sleeps and falls through, without any fatal error.
  For a flag from 0 to 2047 the comparison is the one between the size and the flag times
  1,048,576 as numbers. As long as no flush fails, the flushes of \<open>n\<close> iterations are as
  many as the readings above the threshold.
\<close>

theorem FlushThread_flushes_iff_over_threshold:
  "(\<exists>e \<in> set (fst (FlushThread_body env mb k)). is_called Tablet_Flush e)
     = (flush_threshold_bytes mb < MemRowSetSize env k)
   \<and> length (filter (is_called Tablet_Flush) (fst (FlushThread_body env mb k)))
     = (if flush_threshold_bytes mb < MemRowSetSize env k then 1 else 0)
   \<and> (MemRowSetSize env k = flush_threshold_bytes mb \<longrightarrow>
        FlushThread_body env mb k =
          ([ReadMemRowSetSize (MemRowSetSize env k),
            VLog 1 ''Not flushing, memrowset not very full'',
            USleep (250 * 1000)], Continue))
   \<and> (0 \<le> sint mb \<and> sint mb \<le> 2047 \<longrightarrow>
        (\<exists>e \<in> set (fst (FlushThread_body env mb k)). is_called Tablet_Flush e)
          = (sint mb * 1048576 < uint (MemRowSetSize env k)))
   \<and> ((\<forall>i<n. flush_threshold_bytes mb < MemRowSetSize env i \<longrightarrow>
          status env Tablet_Flush i = OK) \<longrightarrow>
        length (filter (is_called Tablet_Flush) (fst (FlushThread n env mb))) =
          length (filter (\<lambda>i. flush_threshold_bytes mb < MemRowSetSize env i) [0..<n]))"
proof -
  have a: "(\<exists>e \<in> set (fst (FlushThread_body env mb k)). is_called Tablet_Flush e)
     = (flush_threshold_bytes mb < MemRowSetSize env k)"
    by (simp add: FlushThread_body_eq)
  have b: "length (filter (is_called Tablet_Flush) (fst (FlushThread_body env mb k)))
     = (if flush_threshold_bytes mb < MemRowSetSize env k then 1 else 0)"
    by (simp add: FlushThread_body_eq)
  have c: "MemRowSetSize env k = flush_threshold_bytes mb \<longrightarrow>
        FlushThread_body env mb k =
          ([ReadMemRowSetSize (MemRowSetSize env k),
            VLog 1 ''Not flushing, memrowset not very full'',
            USleep (250 * 1000)], Continue)"
    by (simp add: FlushThread_body_eq)
  have d: "0 \<le> sint mb \<and> sint mb \<le> 2047 \<longrightarrow>
        (\<exists>e \<in> set (fst (FlushThread_body env mb k)). is_called Tablet_Flush e)
          = (sint mb * 1048576 < uint (MemRowSetSize env k))"
  proof
    assume r: "0 \<le> sint mb \<and> sint mb \<le> 2047"
    then have "uint (flush_threshold_bytes mb) = sint mb * 1048576"
      by (intro uint_flush_threshold_bytes_fits) simp_all
    then show "(\<exists>e \<in> set (fst (FlushThread_body env mb k)). is_called Tablet_Flush e)
          = (sint mb * 1048576 < uint (MemRowSetSize env k))"
      by (simp only: a word_less_def)
  qed
  have e: "(\<forall>i<n. flush_threshold_bytes mb < MemRowSetSize env i \<longrightarrow>
          status env Tablet_Flush i = OK) \<longrightarrow>
        length (filter (is_called Tablet_Flush) (fst (FlushThread n env mb))) =
          length (filter (\<lambda>i. flush_threshold_bytes mb < MemRowSetSize env i) [0..<n])"
  proof
    assume ok: "\<forall>i<n. flush_threshold_bytes mb < MemRowSetSize env i \<longrightarrow>
          status env Tablet_Flush i = OK"
    then have "\<forall>i<n. snd (FlushThread_body env mb (0 + i)) = Continue"
      by (simp add: FlushThread_body_Continue)
    then have tr: "fst (FlushThread n env mb) =
        concat (map (\<lambda>i. fst (FlushThread_body env mb i)) [0..<0 + n])"
      unfolding FlushThread_def by (simp only: while_true_continue fst_conv)
    have "\<forall>i\<in>set [0..<n].
        length (filter (is_called Tablet_Flush) (fst (FlushThread_body env mb i))) =
          (if flush_threshold_bytes mb < MemRowSetSize env i then 1 else 0)"
      by (simp add: FlushThread_body_eq)
    then have "length (concat (map (\<lambda>i. filter (is_called Tablet_Flush)
          (fst (FlushThread_body env mb i))) [0..<n])) =
        length (filter (\<lambda>i. flush_threshold_bytes mb < MemRowSetSize env i) [0..<n])"
      by (rule length_concat_indicator)
    then show "length (filter (is_called Tablet_Flush) (fst (FlushThread n env mb))) =
          length (filter (\<lambda>i. flush_threshold_bytes mb < MemRowSetSize env i) [0..<n])"
      by (simp add: tr filter_concat comp_def)
  qed
  from a b c d e show ?thesis by blast
qed

theorem FlushThread_flushes_iff_over_threshold_witness:
  "MemRowSetSize \<lparr>status = (\<lambda>c k. OK), MemRowSetSize = (\<lambda>k. 67108864)\<rparr> 0
     = flush_threshold_bytes 64
   \<and> (0 \<le> sint (64 :: 32 word) \<and> sint (64 :: 32 word) \<le> 2047)
   \<and> FlushThread_body \<lparr>status = (\<lambda>c k. OK), MemRowSetSize = (\<lambda>k. 67108864)\<rparr> 64 0 =
          ([ReadMemRowSetSize 67108864,
            VLog 1 ''Not flushing, memrowset not very full'',
            USleep 250000], Continue)
   \<and> \<not> (\<exists>e \<in> set (fst (FlushThread_body
          \<lparr>status = (\<lambda>c k. OK), MemRowSetSize = (\<lambda>k. 67108864)\<rparr> 64 0)).
          is_called Tablet_Flush e)
   \<and> length (filter (is_called Tablet_Flush) (fst (FlushThread 2
          \<lparr>status = (\<lambda>c k. OK), MemRowSetSize = (\<lambda>k. 67108864)\<rparr> 64))) = 0"
  using FlushThread_flushes_iff_over_threshold
    [of "\<lparr>status = (\<lambda>c k. OK), MemRowSetSize = (\<lambda>k. 67108864)\<rparr>" 64 0 2]
  by (simp add: flush_threshold_bytes_def flush_threshold_def)

text \<open>
  The scenario of the spec: with the default flag, readings of 10 MB, 70 MB and 70 MB give
  a flush in the second and in the third iteration.
\<close>

lemma flush_scenario:
  "FlushThread 3
     \<lparr>status = (\<lambda>c k. OK),
      MemRowSetSize = (\<lambda>k. if k = 0 then 10485760 else 73400320)\<rparr> 64 =
   ([ReadMemRowSetSize 10485760, VLog 1 ''Not flushing, memrowset not very full'',
     USleep 250000,
     ReadMemRowSetSize 73400320, Called Tablet_Flush OK, USleep 250000,
     ReadMemRowSetSize 73400320, Called Tablet_Flush OK, USleep 250000], Running)"
  by (simp add: FlushThread_def FlushThread_body_eq numeral_3_eq_3
      flush_threshold_bytes_def flush_threshold_def)

subsection \<open>The compaction call\<close>

text \<open>
  Claim C4. Every iteration of the loop of \<^verbatim>\<open>CompactThread\<close> calls \<^verbatim>\<open>Compact\<close> exactly
  once, with \<^verbatim>\<open>COMPACT_NO_FLAGS\<close>, as its first action, whatever the collaborators answer:
  nothing is tested before the call. As long as no call fails, \<open>n\<close> iterations make \<open>n\<close>
  calls.
\<close>

theorem CompactThread_compacts_once:
  "filter is_compact (fst (CompactThread_body env k)) =
     [Called (Tablet_Compact COMPACT_NO_FLAGS) (status env (Tablet_Compact COMPACT_NO_FLAGS) k)]
   \<and> hd (fst (CompactThread_body env k)) =
     Called (Tablet_Compact COMPACT_NO_FLAGS) (status env (Tablet_Compact COMPACT_NO_FLAGS) k)
   \<and> ((\<forall>i<n. status env (Tablet_Compact COMPACT_NO_FLAGS) i = OK) \<longrightarrow>
        filter is_compact (fst (CompactThread n env)) =
          replicate n (Called (Tablet_Compact COMPACT_NO_FLAGS) OK))"
proof -
  have a: "filter is_compact (fst (CompactThread_body env k)) =
     [Called (Tablet_Compact COMPACT_NO_FLAGS) (status env (Tablet_Compact COMPACT_NO_FLAGS) k)]"
    by (simp add: CompactThread_body_eq)
  have b: "hd (fst (CompactThread_body env k)) =
     Called (Tablet_Compact COMPACT_NO_FLAGS) (status env (Tablet_Compact COMPACT_NO_FLAGS) k)"
    by (simp add: CompactThread_body_eq)
  have c: "(\<forall>i<n. status env (Tablet_Compact COMPACT_NO_FLAGS) i = OK) \<longrightarrow>
        filter is_compact (fst (CompactThread n env)) =
          replicate n (Called (Tablet_Compact COMPACT_NO_FLAGS) OK)"
  proof
    assume ok: "\<forall>i<n. status env (Tablet_Compact COMPACT_NO_FLAGS) i = OK"
    then have "\<forall>i<n. snd (CompactThread_body env (0 + i)) = Continue"
      by (simp add: CompactThread_body_Continue)
    then have tr: "fst (CompactThread n env) =
        concat (map (\<lambda>i. fst (CompactThread_body env i)) [0..<0 + n])"
      unfolding CompactThread_def by (simp only: while_true_continue fst_conv)
    have "\<forall>i\<in>set [0..<0 + n]. filter is_compact (fst (CompactThread_body env i)) =
        [Called (Tablet_Compact COMPACT_NO_FLAGS) OK]"
      using ok by (simp add: CompactThread_body_eq)
    then have "concat (map (\<lambda>i. filter is_compact (fst (CompactThread_body env i))) [0..<0 + n]) =
        concat (replicate (length [0..<0 + n]) [Called (Tablet_Compact COMPACT_NO_FLAGS) OK])"
      by (rule concat_map_const)
    also have "\<dots> = replicate n (Called (Tablet_Compact COMPACT_NO_FLAGS) OK)"
      by (induction n) simp_all
    finally show "filter is_compact (fst (CompactThread n env)) =
          replicate n (Called (Tablet_Compact COMPACT_NO_FLAGS) OK)"
      by (simp add: tr filter_concat comp_def)
  qed
  from a b c show ?thesis by blast
qed

theorem CompactThread_compacts_once_witness:
  "filter is_compact (fst (CompactThread 3 \<lparr>status = (\<lambda>c k. OK), MemRowSetSize = (\<lambda>k. 0)\<rparr>)) =
       [Called (Tablet_Compact COMPACT_NO_FLAGS) OK, Called (Tablet_Compact COMPACT_NO_FLAGS) OK,
        Called (Tablet_Compact COMPACT_NO_FLAGS) OK]
   \<and> filter is_compact (fst (CompactThread_body \<lparr>status = (\<lambda>c k. OK), MemRowSetSize = (\<lambda>k. 0)\<rparr> 7)) =
       [Called (Tablet_Compact COMPACT_NO_FLAGS) OK]"
  using CompactThread_compacts_once [of "\<lparr>status = (\<lambda>c k. OK), MemRowSetSize = (\<lambda>k. 0)\<rparr>" 7 3]
  by (simp add: numeral_3_eq_3)

subsection \<open>The threshold\<close>

text \<open>
  Claim C5. The threshold in bytes is the flag times 1,048,576, and with the default flag
  of 64 it is 67,108,864 bytes (lemma \<open>default_flush_threshold\<close>). The product is computed
  in 32 bits, though: at the flag value 2048 it does not fit, the 32-bit result is
  \<open>-2,147,483,648\<close>, and the comparison uses 18,446,744,071,562,067,968 instead of
  2,147,483,648.
\<close>

theorem flush_threshold_at_2048:
  "sint (flush_threshold 2048) = - 2147483648
   \<and> uint (flush_threshold_bytes 2048) = 18446744071562067968
   \<and> uint (flush_threshold_bytes 2048) \<noteq> 2048 * 1048576"
  by (simp add: flush_threshold_bytes_def flush_threshold_def)

text \<open>
  Claim C6, as stated: the threshold is strictly positive for every value of the flag.
  With \<^verbatim>\<open>--flush_threshold_mb=0\<close> it is 0.
\<close>

theorem flush_threshold_zero_flag:
  "\<not> 0 < flush_threshold_bytes (FLAGS_flush_threshold_mb
      \<lparr>argv0 = ''tablet_server'', flush_threshold_mb_arg = Some 0, positional = []\<rparr>)"
  by (simp add: FLAGS_flush_threshold_mb_def flush_threshold_bytes_def flush_threshold_def)

text \<open>
  Claim C6, amended. For a flag from 0 to 2047 the threshold in bytes is the flag times
  1,048,576, so it is strictly positive exactly when the flag is, and 0 for the flag 0.
\<close>

theorem flush_threshold_positive_in_range:
  assumes "0 \<le> sint mb" and "sint mb \<le> 2047"
  shows "(0 < flush_threshold_bytes mb) = (0 < sint mb)
         \<and> uint (flush_threshold_bytes mb) = sint mb * 1048576"
proof -
  have u: "uint (flush_threshold_bytes mb) = sint mb * 1048576"
    using assms by (rule uint_flush_threshold_bytes_fits)
  have "(0 < flush_threshold_bytes mb) = (0 < uint (flush_threshold_bytes mb))"
    by (simp add: word_less_def)
  also have "\<dots> = (0 < sint mb)"
    by (simp only: u) simp
  finally show ?thesis using u by simp
qed

theorem flush_threshold_positive_in_range_witness:
  "0 \<le> sint (64 :: 32 word) \<and> sint (64 :: 32 word) \<le> 2047
   \<and> 0 < flush_threshold_bytes 64
   \<and> uint (flush_threshold_bytes 64) = 67108864"
  using flush_threshold_positive_in_range [of 64] by simp

subsection \<open>The command line\<close>

text \<open>
  Claim C9. When an argument is left after the flags have been parsed (\<^verbatim>\<open>argc != 1\<close>),
  \<^verbatim>\<open>TabletServerMain\<close> prints the usage line and returns 1. It has done nothing else but
  initialise logging and parse the flags: the server is not initialised, no tablet is set
  up and no thread is started.
\<close>

theorem usage_exit:
  assumes "argc cl \<noteq> 1"
  shows "TabletServerMain n env cl =
    ([InitGoogleLoggingSafe (argv0 cl), ParseCommandLineFlags,
      Cerr (''usage: '' @ argv0 cl @ [CHR 0x0A])],
     Returned 1)"
  using assms by (simp add: TabletServerMain_def emit_def return_stmt_def)

theorem usage_exit_witness:
  "argc \<lparr>argv0 = ''tablet_server'', flush_threshold_mb_arg = None, positional = [''extra'']\<rparr> \<noteq> 1
   \<and> TabletServerMain 5 \<lparr>status = (\<lambda>c k. OK), MemRowSetSize = (\<lambda>k. 0)\<rparr>
         \<lparr>argv0 = ''tablet_server'', flush_threshold_mb_arg = None, positional = [''extra'']\<rparr> =
       ([InitGoogleLoggingSafe ''tablet_server'', ParseCommandLineFlags,
         Cerr (''usage: tablet_server'' @ [CHR 0x0A])], Returned 1)"
  using usage_exit [of "\<lparr>argv0 = ''tablet_server'', flush_threshold_mb_arg = None,
      positional = [''extra'']\<rparr>" 5 "\<lparr>status = (\<lambda>c k. OK), MemRowSetSize = (\<lambda>k. 0)\<rparr>"]
  by (simp add: argc_def)

subsection \<open>The two loops\<close>

text \<open>
  Claim C10. In both threads the operation comes before the delay. The first event of
  \<^verbatim>\<open>FlushThread\<close> is the reading of the memrowset size and the first event of
  \<^verbatim>\<open>CompactThread\<close> is the call of \<^verbatim>\<open>Compact\<close>; and every sleep comes after a reading
  (after a call of \<^verbatim>\<open>Compact\<close>) that no other sleep separates from it.
\<close>

theorem operation_before_delay:
  "op_before_sleep is_read False (fst (FlushThread n env mb))
   \<and> op_before_sleep is_compact False (fst (CompactThread n env))
   \<and> (0 < n \<longrightarrow> (\<exists>rest. fst (FlushThread n env mb) =
          ReadMemRowSetSize (MemRowSetSize env 0) # rest))
   \<and> (0 < n \<longrightarrow> (\<exists>rest. fst (CompactThread n env) =
          Called (Tablet_Compact COMPACT_NO_FLAGS)
            (status env (Tablet_Compact COMPACT_NO_FLAGS) 0) # rest))"
proof -
  have a: "op_before_sleep is_read False (fst (FlushThread n env mb))"
    unfolding FlushThread_def by (rule op_before_sleep_FlushThread)
  have b: "op_before_sleep is_compact False (fst (CompactThread n env))"
    unfolding CompactThread_def by (rule op_before_sleep_CompactThread)
  have c: "0 < n \<longrightarrow> (\<exists>rest. fst (FlushThread n env mb) =
          ReadMemRowSetSize (MemRowSetSize env 0) # rest)"
  proof
    assume "0 < n"
    then obtain m where "n = Suc m" by (cases n) auto
    then show "\<exists>rest. fst (FlushThread n env mb) = ReadMemRowSetSize (MemRowSetSize env 0) # rest"
      unfolding FlushThread_def using FlushThread_first [of m env mb 0] by simp
  qed
  have d: "0 < n \<longrightarrow> (\<exists>rest. fst (CompactThread n env) =
          Called (Tablet_Compact COMPACT_NO_FLAGS)
            (status env (Tablet_Compact COMPACT_NO_FLAGS) 0) # rest)"
  proof
    assume "0 < n"
    then obtain m where "n = Suc m" by (cases n) auto
    then show "\<exists>rest. fst (CompactThread n env) =
          Called (Tablet_Compact COMPACT_NO_FLAGS)
            (status env (Tablet_Compact COMPACT_NO_FLAGS) 0) # rest"
      unfolding CompactThread_def using CompactThread_first [of m env 0] by simp
  qed
  from a b c d show ?thesis by blast
qed

theorem operation_before_delay_witness:
  "0 < (2::nat)
   \<and> op_before_sleep is_read False
        (fst (FlushThread 2 \<lparr>status = (\<lambda>c k. OK), MemRowSetSize = (\<lambda>k. 73400320)\<rparr> 64))
   \<and> op_before_sleep is_compact False
        (fst (CompactThread 2 \<lparr>status = (\<lambda>c k. OK), MemRowSetSize = (\<lambda>k. 73400320)\<rparr>))
   \<and> (\<exists>rest. fst (FlushThread 2 \<lparr>status = (\<lambda>c k. OK), MemRowSetSize = (\<lambda>k. 73400320)\<rparr> 64) =
          ReadMemRowSetSize 73400320 # rest)
   \<and> (\<exists>rest. fst (CompactThread 2 \<lparr>status = (\<lambda>c k. OK), MemRowSetSize = (\<lambda>k. 73400320)\<rparr>) =
          Called (Tablet_Compact COMPACT_NO_FLAGS) OK # rest)"
  using operation_before_delay
    [of 2 "\<lparr>status = (\<lambda>c k. OK), MemRowSetSize = (\<lambda>k. 73400320)\<rparr>" 64]
  by simp

text \<open>
  Claim C7. The time slept between one reading of the memrowset size and the next is
  250 times 1000 microseconds, and between one call of \<^verbatim>\<open>Compact\<close> and the next it is
  3000 times 1000 microseconds; as long as no call fails, \<open>n\<close> iterations have \<open>n - 1\<close>
  such delays. These are the times asked of \<^verbatim>\<open>usleep\<close>; the time the calls themselves
  take is not part of the model.
\<close>

theorem delay_between_iterations:
  "set (delays is_read None (fst (FlushThread n env mb))) \<subseteq> {250 * 1000}
   \<and> set (delays is_compact None (fst (CompactThread n env))) \<subseteq> {3000 * 1000}
   \<and> ((\<forall>i<n. flush_threshold_bytes mb < MemRowSetSize env i \<longrightarrow> status env Tablet_Flush i = OK)
        \<longrightarrow> delays is_read None (fst (FlushThread n env mb)) = replicate (n - 1) (250 * 1000))
   \<and> ((\<forall>i<n. status env (Tablet_Compact COMPACT_NO_FLAGS) i = OK)
        \<longrightarrow> delays is_compact None (fst (CompactThread n env)) = replicate (n - 1) (3000 * 1000))"
proof -
  have a: "set (delays is_read None (fst (FlushThread n env mb))) \<subseteq> {250 * 1000}"
    unfolding FlushThread_def using delays_FlushThread [of None n env mb 0] by simp
  have b: "set (delays is_compact None (fst (CompactThread n env))) \<subseteq> {3000 * 1000}"
    unfolding CompactThread_def using delays_CompactThread [of None n env 0] by simp
  have c: "(\<forall>i<n. flush_threshold_bytes mb < MemRowSetSize env i \<longrightarrow> status env Tablet_Flush i = OK)
        \<longrightarrow> delays is_read None (fst (FlushThread n env mb)) = replicate (n - 1) (250 * 1000)"
    unfolding FlushThread_def
    using delays_FlushThread_start [of n env mb] by (simp add: FlushThread_body_Continue)
  have d: "(\<forall>i<n. status env (Tablet_Compact COMPACT_NO_FLAGS) i = OK)
        \<longrightarrow> delays is_compact None (fst (CompactThread n env)) = replicate (n - 1) (3000 * 1000)"
    unfolding CompactThread_def
    using delays_CompactThread_start [of n env] by (simp add: CompactThread_body_Continue)
  from a b c d show ?thesis by blast
qed

theorem delay_between_iterations_witness:
  "delays is_read None (fst (FlushThread 3 \<lparr>status = (\<lambda>c k. OK), MemRowSetSize = (\<lambda>k. 73400320)\<rparr> 64)) = [250000, 250000]
   \<and> delays is_compact None (fst (CompactThread 3 \<lparr>status = (\<lambda>c k. OK), MemRowSetSize = (\<lambda>k. 73400320)\<rparr>)) = [3000000, 3000000]"
  using delay_between_iterations [of 3 "\<lparr>status = (\<lambda>c k. OK), MemRowSetSize = (\<lambda>k. 73400320)\<rparr>" 64]
  by (simp add: numeral_2_eq_2)

text \<open>
  Claim C8. Neither loop ends by itself. Run to its end, \<^verbatim>\<open>FlushThread\<close> gives no result
  at all exactly when no \<^verbatim>\<open>Flush\<close> it makes fails, and \<^verbatim>\<open>CompactThread\<close> exactly when no
  \<^verbatim>\<open>Compact\<close> fails; a result, when there is one, is the abort of the process. Observed
  for \<open>n\<close> iterations, a thread is either still in its loop or aborted, and while it is in
  its loop the next iteration is executed.
\<close>

theorem loops_never_exit:
  "(FlushThread_run env mb = None) =
      (\<forall>k. flush_threshold_bytes mb < MemRowSetSize env k \<longrightarrow> status env Tablet_Flush k = OK)
   \<and> (\<forall>r. FlushThread_run env mb = Some r \<longrightarrow> snd r = Aborted)
   \<and> (CompactThread_run env = None) =
      (\<forall>k. status env (Tablet_Compact COMPACT_NO_FLAGS) k = OK)
   \<and> (\<forall>r. CompactThread_run env = Some r \<longrightarrow> snd r = Aborted)
   \<and> (snd (FlushThread n env mb) = Running \<or> snd (FlushThread n env mb) = Aborted)
   \<and> (snd (CompactThread n env) = Running \<or> snd (CompactThread n env) = Aborted)
   \<and> (snd (FlushThread n env mb) = Running \<longrightarrow>
        fst (FlushThread (Suc n) env mb) =
          fst (FlushThread n env mb) @ fst (FlushThread_body env mb n))
   \<and> (snd (CompactThread n env) = Running \<longrightarrow>
        fst (CompactThread (Suc n) env) =
          fst (CompactThread n env) @ fst (CompactThread_body env n))"
proof -
  have fnr: "\<forall>i. snd (FlushThread_body env mb i) \<noteq> Running"
    using FlushThread_body_outcome [of env mb] by (metis outcome.distinct(5,11))
  have cnr: "\<forall>i. snd (CompactThread_body env i) \<noteq> Running"
    using CompactThread_body_outcome [of env] by (metis outcome.distinct(5,11))
  have a: "(FlushThread_run env mb = None) =
      (\<forall>k. flush_threshold_bytes mb < MemRowSetSize env k \<longrightarrow> status env Tablet_Flush k = OK)"
    by (simp add: FlushThread_run_def while_true_run_None_iff FlushThread_body_Continue)
  have b: "\<forall>r. FlushThread_run env mb = Some r \<longrightarrow> snd r = Aborted"
  proof (intro allI impI)
    fix r assume "FlushThread_run env mb = Some r"
    then obtain i where "snd r = snd (FlushThread_body env mb i)"
      and "snd (FlushThread_body env mb i) \<noteq> Continue"
      unfolding FlushThread_run_def by (blast dest: while_true_run_outcome)
    then show "snd r = Aborted"
      using FlushThread_body_outcome [of env mb i] by simp
  qed
  have c: "(CompactThread_run env = None) =
      (\<forall>k. status env (Tablet_Compact COMPACT_NO_FLAGS) k = OK)"
    by (simp add: CompactThread_run_def while_true_run_None_iff CompactThread_body_Continue)
  have d: "\<forall>r. CompactThread_run env = Some r \<longrightarrow> snd r = Aborted"
  proof (intro allI impI)
    fix r assume "CompactThread_run env = Some r"
    then obtain i where "snd r = snd (CompactThread_body env i)"
      and "snd (CompactThread_body env i) \<noteq> Continue"
      unfolding CompactThread_run_def by (blast dest: while_true_run_outcome)
    then show "snd r = Aborted"
      using CompactThread_body_outcome [of env i] by simp
  qed
  have e: "snd (FlushThread n env mb) = Running \<or> snd (FlushThread n env mb) = Aborted"
    unfolding FlushThread_def
    using while_true_outcome [of n "FlushThread_body env mb" 0] FlushThread_body_outcome [of env mb]
    by metis
  have f: "snd (CompactThread n env) = Running \<or> snd (CompactThread n env) = Aborted"
    unfolding CompactThread_def
    using while_true_outcome [of n "CompactThread_body env" 0] CompactThread_body_outcome [of env]
    by metis
  have g: "snd (FlushThread n env mb) = Running \<longrightarrow>
        fst (FlushThread (Suc n) env mb) =
          fst (FlushThread n env mb) @ fst (FlushThread_body env mb n)"
    unfolding FlushThread_def
    using while_true_snoc [of n "FlushThread_body env mb" 0]
    by (simp add: while_true_Running [OF fnr])
  have h: "snd (CompactThread n env) = Running \<longrightarrow>
        fst (CompactThread (Suc n) env) =
          fst (CompactThread n env) @ fst (CompactThread_body env n)"
    unfolding CompactThread_def
    using while_true_snoc [of n "CompactThread_body env" 0]
    by (simp add: while_true_Running [OF cnr])
  from a b c d e f g h show ?thesis by blast
qed

theorem loops_never_exit_witness:
  "FlushThread_run \<lparr>status = (\<lambda>c k. OK), MemRowSetSize = (\<lambda>k. 73400320)\<rparr> 64 = None
   \<and> CompactThread_run \<lparr>status = (\<lambda>c k. OK), MemRowSetSize = (\<lambda>k. 73400320)\<rparr> = None
   \<and> snd (FlushThread 2 \<lparr>status = (\<lambda>c k. OK), MemRowSetSize = (\<lambda>k. 73400320)\<rparr> 64) = Running
   \<and> fst (FlushThread (Suc 2) \<lparr>status = (\<lambda>c k. OK), MemRowSetSize = (\<lambda>k. 73400320)\<rparr> 64) =
       fst (FlushThread 2 \<lparr>status = (\<lambda>c k. OK), MemRowSetSize = (\<lambda>k. 73400320)\<rparr> 64) @
       [ReadMemRowSetSize 73400320, Called Tablet_Flush OK, USleep 250000]
   \<and> snd (CompactThread 2 \<lparr>status = (\<lambda>c k. OK), MemRowSetSize = (\<lambda>k. 73400320)\<rparr>) = Running
   \<and> fst (CompactThread (Suc 2) \<lparr>status = (\<lambda>c k. OK), MemRowSetSize = (\<lambda>k. 73400320)\<rparr>) =
       fst (CompactThread 2 \<lparr>status = (\<lambda>c k. OK), MemRowSetSize = (\<lambda>k. 73400320)\<rparr>) @
       [Called (Tablet_Compact COMPACT_NO_FLAGS) OK, USleep 3000000]"
proof -
  have fl: "snd (FlushThread 2 \<lparr>status = (\<lambda>c k. OK), MemRowSetSize = (\<lambda>k. 73400320)\<rparr> 64) = Running"
    by (simp add: FlushThread_def numeral_2_eq_2 FlushThread_body_eq
        flush_threshold_bytes_def flush_threshold_def)
  have co: "snd (CompactThread 2 \<lparr>status = (\<lambda>c k. OK), MemRowSetSize = (\<lambda>k. 73400320)\<rparr>) = Running"
    by (simp add: CompactThread_def numeral_2_eq_2 CompactThread_body_eq)
  show ?thesis
    using loops_never_exit [of "\<lparr>status = (\<lambda>c k. OK), MemRowSetSize = (\<lambda>k. 73400320)\<rparr>" 64 2] fl co
    by (simp add: FlushThread_body_eq CompactThread_body_eq
        flush_threshold_bytes_def flush_threshold_def)
qed

subsection \<open>Errors\<close>

text \<open>
  Claim C3. Every status that is not ok is fatal. In the main thread and in both loops a
  failed call is followed by the fatal log entry and by nothing else; the main thread is
  aborted exactly when one of its six calls fails, \<^verbatim>\<open>FlushThread\<close> exactly when a
  \<^verbatim>\<open>Flush\<close> it makes fails, \<^verbatim>\<open>CompactThread\<close> exactly when a \<^verbatim>\<open>Compact\<close> fails. When
  \<^verbatim>\<open>Compact\<close> fails for the first time in iteration \<open>j\<close>, the thread has made \<open>j\<close>
  successful calls, each followed by its sleep, then the failing call, and the process
  is aborted: no later observation shows another iteration.
\<close>

theorem every_error_is_fatal:
  "fatal_on_error (fst (TabletServerMain n env cl))
   \<and> (argc cl = 1 \<longrightarrow>
        (snd (TabletServerMain n env cl) = Aborted) =
          (status env Server_Init 0 \<noteq> OK
           \<or> status env (LoadOrCreate master_block) 0 \<noteq> OK
           \<or> status env Tablet_Open 0 \<noteq> OK
           \<or> status env TabletPeer_Init 0 \<noteq> OK
           \<or> status env TabletPeer_Start 0 \<noteq> OK
           \<or> status env Server_Start 0 \<noteq> OK))
   \<and> fatal_on_error (fst (FlushThread n env mb))
   \<and> (snd (FlushThread n env mb) = Aborted) =
        (\<exists>i<n. flush_threshold_bytes mb < MemRowSetSize env i \<and> status env Tablet_Flush i \<noteq> OK)
   \<and> fatal_on_error (fst (CompactThread n env))
   \<and> (snd (CompactThread n env) = Aborted) =
        (\<exists>i<n. status env (Tablet_Compact COMPACT_NO_FLAGS) i \<noteq> OK)
   \<and> (status env (Tablet_Compact COMPACT_NO_FLAGS) j \<noteq> OK
        \<and> (\<forall>i<j. status env (Tablet_Compact COMPACT_NO_FLAGS) i = OK) \<longrightarrow>
        CompactThread_run env =
          Some (concat (replicate j [Called (Tablet_Compact COMPACT_NO_FLAGS) OK, USleep 3000000]) @
                [Called (Tablet_Compact COMPACT_NO_FLAGS)
                   (status env (Tablet_Compact COMPACT_NO_FLAGS) j), LogFatal], Aborted)
        \<and> (\<forall>m>j. CompactThread m env =
          (concat (replicate j [Called (Tablet_Compact COMPACT_NO_FLAGS) OK, USleep 3000000]) @
           [Called (Tablet_Compact COMPACT_NO_FLAGS)
              (status env (Tablet_Compact COMPACT_NO_FLAGS) j), LogFatal], Aborted)))"
proof -
  have a: "fatal_on_error (fst (TabletServerMain n env cl))"
    by (rule TabletServerMain_fatal_on_error)
  have b: "argc cl = 1 \<longrightarrow>
        (snd (TabletServerMain n env cl) = Aborted) =
          (status env Server_Init 0 \<noteq> OK
           \<or> status env (LoadOrCreate master_block) 0 \<noteq> OK
           \<or> status env Tablet_Open 0 \<noteq> OK
           \<or> status env TabletPeer_Init 0 \<noteq> OK
           \<or> status env TabletPeer_Start 0 \<noteq> OK
           \<or> status env Server_Start 0 \<noteq> OK)"
    using TabletServerMain_Aborted [of cl n env] by blast
  have c: "fatal_on_error (fst (FlushThread n env mb))"
    unfolding FlushThread_def by (rule fatal_on_error_FlushThread)
  have d: "(snd (FlushThread n env mb) = Aborted) =
        (\<exists>i<n. flush_threshold_bytes mb < MemRowSetSize env i \<and> status env Tablet_Flush i \<noteq> OK)"
    unfolding FlushThread_def
    using while_true_Aborted [of "FlushThread_body env mb" n 0] FlushThread_body_outcome [of env mb]
    by (simp add: FlushThread_body_Continue)
  have e: "fatal_on_error (fst (CompactThread n env))"
    unfolding CompactThread_def by (rule fatal_on_error_CompactThread)
  have f: "(snd (CompactThread n env) = Aborted) =
        (\<exists>i<n. status env (Tablet_Compact COMPACT_NO_FLAGS) i \<noteq> OK)"
    unfolding CompactThread_def
    using while_true_Aborted [of "CompactThread_body env" n 0] CompactThread_body_outcome [of env]
    by (simp add: CompactThread_body_Continue)
  have g: "status env (Tablet_Compact COMPACT_NO_FLAGS) j \<noteq> OK
        \<and> (\<forall>i<j. status env (Tablet_Compact COMPACT_NO_FLAGS) i = OK) \<longrightarrow>
        CompactThread_run env =
          Some (concat (replicate j [Called (Tablet_Compact COMPACT_NO_FLAGS) OK, USleep 3000000]) @
                [Called (Tablet_Compact COMPACT_NO_FLAGS)
                   (status env (Tablet_Compact COMPACT_NO_FLAGS) j), LogFatal], Aborted)
        \<and> (\<forall>m>j. CompactThread m env =
          (concat (replicate j [Called (Tablet_Compact COMPACT_NO_FLAGS) OK, USleep 3000000]) @
           [Called (Tablet_Compact COMPACT_NO_FLAGS)
              (status env (Tablet_Compact COMPACT_NO_FLAGS) j), LogFatal], Aborted))"
    using CompactThread_fails_at [of env j] by blast
  from a b c d e f g show ?thesis by blast
qed

theorem every_error_is_fatal_witness:
  "argc \<lparr>argv0 = ''tablet_server'', flush_threshold_mb_arg = None, positional = []\<rparr> = 1
   \<and> status \<lparr>status = (\<lambda>c k. if c = Tablet_Compact COMPACT_NO_FLAGS \<and> k = 1
                          then NotOK ''compaction failed'' else OK),
         MemRowSetSize = (\<lambda>k. 0)\<rparr> (Tablet_Compact COMPACT_NO_FLAGS) 1 \<noteq> OK
   \<and> status \<lparr>status = (\<lambda>c k. if c = Tablet_Compact COMPACT_NO_FLAGS \<and> k = 1
                          then NotOK ''compaction failed'' else OK),
         MemRowSetSize = (\<lambda>k. 0)\<rparr> (Tablet_Compact COMPACT_NO_FLAGS) 0 = OK
   \<and> CompactThread_run \<lparr>status = (\<lambda>c k. if c = Tablet_Compact COMPACT_NO_FLAGS \<and> k = 1
                          then NotOK ''compaction failed'' else OK),
         MemRowSetSize = (\<lambda>k. 0)\<rparr> =
       Some ([Called (Tablet_Compact COMPACT_NO_FLAGS) OK, USleep 3000000,
              Called (Tablet_Compact COMPACT_NO_FLAGS) (NotOK ''compaction failed''),
              LogFatal], Aborted)
   \<and> CompactThread 5 \<lparr>status = (\<lambda>c k. if c = Tablet_Compact COMPACT_NO_FLAGS \<and> k = 1
                          then NotOK ''compaction failed'' else OK),
         MemRowSetSize = (\<lambda>k. 0)\<rparr> =
       ([Called (Tablet_Compact COMPACT_NO_FLAGS) OK, USleep 3000000,
         Called (Tablet_Compact COMPACT_NO_FLAGS) (NotOK ''compaction failed''),
         LogFatal], Aborted)
   \<and> snd (TabletServerMain 3 \<lparr>status = (\<lambda>c k. if c = Tablet_Compact COMPACT_NO_FLAGS \<and> k = 1
                          then NotOK ''compaction failed'' else OK),
         MemRowSetSize = (\<lambda>k. 0)\<rparr>
        \<lparr>argv0 = ''tablet_server'', flush_threshold_mb_arg = None, positional = []\<rparr>) \<noteq> Aborted"
  using every_error_is_fatal [of 3 "\<lparr>status = (\<lambda>c k. if c = Tablet_Compact COMPACT_NO_FLAGS \<and> k = 1
                          then NotOK ''compaction failed'' else OK),
         MemRowSetSize = (\<lambda>k. 0)\<rparr>"
      "\<lparr>argv0 = ''tablet_server'', flush_threshold_mb_arg = None, positional = []\<rparr>" 64 1]
  by (simp add: argc_def)

subsection \<open>Bootstrap\<close>

text \<open>
  Claim C2. In the main thread the metadata is loaded or created, with success, before
  the tablet is opened; the tablet is opened, with success, before the peer is
  constructed; the peer is constructed before its \<^verbatim>\<open>Init\<close>, which succeeds before its
  \<^verbatim>\<open>Start\<close>, which succeeds before the peer is registered. When loading or creating the
  metadata fails, the tablet is not opened, the peer is neither initialised nor started,
  and nothing is registered. When every call succeeds the peer is registered.
\<close>

theorem bootstrap_order:
  "precedes (\<lambda>e. e = Called (LoadOrCreate master_block) OK) (is_called Tablet_Open)
      (fst (TabletServerMain n env cl))
   \<and> precedes (\<lambda>e. e = Called Tablet_Open OK) (\<lambda>e. e = NewTabletPeer)
      (fst (TabletServerMain n env cl))
   \<and> precedes (\<lambda>e. e = NewTabletPeer) (is_called TabletPeer_Init)
      (fst (TabletServerMain n env cl))
   \<and> precedes (\<lambda>e. e = Called TabletPeer_Init OK) (is_called TabletPeer_Start)
      (fst (TabletServerMain n env cl))
   \<and> precedes (\<lambda>e. e = Called TabletPeer_Start OK) (\<lambda>e. e = RegisterTablet)
      (fst (TabletServerMain n env cl))
   \<and> (status env (LoadOrCreate master_block) 0 \<noteq> OK \<longrightarrow>
        (\<forall>e \<in> set (fst (TabletServerMain n env cl)).
           \<not> is_called Tablet_Open e \<and> \<not> is_called TabletPeer_Init e
           \<and> \<not> is_called TabletPeer_Start e \<and> e \<noteq> RegisterTablet))
   \<and> (argc cl = 1 \<and> status env Server_Init 0 = OK
        \<and> status env (LoadOrCreate master_block) 0 = OK \<and> status env Tablet_Open 0 = OK
        \<and> status env TabletPeer_Init 0 = OK \<and> status env TabletPeer_Start 0 = OK \<longrightarrow>
        RegisterTablet \<in> set (fst (TabletServerMain n env cl)))"
proof -
  have a: "precedes (\<lambda>e. e = Called (LoadOrCreate master_block) OK) (is_called Tablet_Open)
      (fst (TabletServerMain n env cl))"
    by (simp add: TabletServerMain_def TemporaryTabletsForDemos_def emit_def skip_def
      return_stmt_def CHECK_OK_def invoke_def sleep_loop_events)
  have b: "precedes (\<lambda>e. e = Called Tablet_Open OK) (\<lambda>e. e = NewTabletPeer)
      (fst (TabletServerMain n env cl))"
    by (simp add: TabletServerMain_def TemporaryTabletsForDemos_def emit_def skip_def
      return_stmt_def CHECK_OK_def invoke_def sleep_loop_events)
  have c: "precedes (\<lambda>e. e = NewTabletPeer) (is_called TabletPeer_Init)
      (fst (TabletServerMain n env cl))"
    by (simp add: TabletServerMain_def TemporaryTabletsForDemos_def emit_def skip_def
      return_stmt_def CHECK_OK_def invoke_def sleep_loop_events)
  have d: "precedes (\<lambda>e. e = Called TabletPeer_Init OK) (is_called TabletPeer_Start)
      (fst (TabletServerMain n env cl))"
    by (simp add: TabletServerMain_def TemporaryTabletsForDemos_def emit_def skip_def
      return_stmt_def CHECK_OK_def invoke_def sleep_loop_events)
  have e: "precedes (\<lambda>e. e = Called TabletPeer_Start OK) (\<lambda>e. e = RegisterTablet)
      (fst (TabletServerMain n env cl))"
    by (simp add: TabletServerMain_def TemporaryTabletsForDemos_def emit_def skip_def
      return_stmt_def CHECK_OK_def invoke_def sleep_loop_events)
  have f: "status env (LoadOrCreate master_block) 0 \<noteq> OK \<longrightarrow>
        (\<forall>e \<in> set (fst (TabletServerMain n env cl)).
           \<not> is_called Tablet_Open e \<and> \<not> is_called TabletPeer_Init e
           \<and> \<not> is_called TabletPeer_Start e \<and> e \<noteq> RegisterTablet)"
    by (simp add: TabletServerMain_def TemporaryTabletsForDemos_def emit_def skip_def
      return_stmt_def CHECK_OK_def invoke_def sleep_loop_events)
  have g: "argc cl = 1 \<and> status env Server_Init 0 = OK
        \<and> status env (LoadOrCreate master_block) 0 = OK \<and> status env Tablet_Open 0 = OK
        \<and> status env TabletPeer_Init 0 = OK \<and> status env TabletPeer_Start 0 = OK \<longrightarrow>
        RegisterTablet \<in> set (fst (TabletServerMain n env cl))"
    by (simp add: TabletServerMain_def TemporaryTabletsForDemos_def emit_def skip_def
      return_stmt_def CHECK_OK_def invoke_def sleep_loop_events)
  from a b c d e f g show ?thesis by blast
qed

theorem bootstrap_order_witness:
  "status \<lparr>status = (\<lambda>c k. if c = LoadOrCreate master_block then NotOK ''corrupt'' else OK),
         MemRowSetSize = (\<lambda>k. 0)\<rparr> (LoadOrCreate master_block) 0 \<noteq> OK
   \<and> fst (TabletServerMain 2 \<lparr>status = (\<lambda>c k. if c = LoadOrCreate master_block then NotOK ''corrupt'' else OK),
         MemRowSetSize = (\<lambda>k. 0)\<rparr>
        \<lparr>argv0 = ''tablet_server'', flush_threshold_mb_arg = None, positional = []\<rparr>) =
       [InitGoogleLoggingSafe ''tablet_server'', ParseCommandLineFlags, NewTabletServer,
        LogInfo ''Initializing tablet server...'', Called Server_Init OK,
        LogInfo ''Setting up demo tablets...'', CreateTwitterSchema,
        Called (LoadOrCreate master_block) (NotOK ''corrupt''), LogFatal]
   \<and> argc \<lparr>argv0 = ''tablet_server'', flush_threshold_mb_arg = None, positional = []\<rparr> = 1
   \<and> RegisterTablet \<in> set (fst (TabletServerMain 2 \<lparr>status = (\<lambda>c k. OK), MemRowSetSize = (\<lambda>k. 0)\<rparr>
        \<lparr>argv0 = ''tablet_server'', flush_threshold_mb_arg = None, positional = []\<rparr>))"
proof -
  have tr: "fst (TabletServerMain 2 \<lparr>status = (\<lambda>c k. if c = LoadOrCreate master_block then NotOK ''corrupt'' else OK),
         MemRowSetSize = (\<lambda>k. 0)\<rparr>
        \<lparr>argv0 = ''tablet_server'', flush_threshold_mb_arg = None, positional = []\<rparr>) =
       [InitGoogleLoggingSafe ''tablet_server'', ParseCommandLineFlags, NewTabletServer,
        LogInfo ''Initializing tablet server...'', Called Server_Init OK,
        LogInfo ''Setting up demo tablets...'', CreateTwitterSchema,
        Called (LoadOrCreate master_block) (NotOK ''corrupt''), LogFatal]"
    by (simp add: TabletServerMain_def TemporaryTabletsForDemos_def emit_def skip_def
      return_stmt_def CHECK_OK_def invoke_def argc_def)
  show ?thesis
    using bootstrap_order [of 2 "\<lparr>status = (\<lambda>c k. if c = LoadOrCreate master_block then NotOK ''corrupt'' else OK),
         MemRowSetSize = (\<lambda>k. 0)\<rparr>"
        "\<lparr>argv0 = ''tablet_server'', flush_threshold_mb_arg = None, positional = []\<rparr>"]
      bootstrap_order [of 2 "\<lparr>status = (\<lambda>c k. OK), MemRowSetSize = (\<lambda>k. 0)\<rparr>"
        "\<lparr>argv0 = ''tablet_server'', flush_threshold_mb_arg = None, positional = []\<rparr>"]
      tr
    by (simp add: argc_def)
qed

end
